theory Spec2Isabelle
  imports Complex_Main "HOL-Library.Multiset"
begin

section \<open>Values, errors and the Python operations used by the hotel listing\<close>

text \<open>
  The service in \<^verbatim>\<open>main.py\<close> reads loosely typed records from a document store and
  handles them as Python dictionaries. A stored value is one of: \<^verbatim>\<open>None\<close>, a boolean,
  an integer, a float, a string, an object id, a list or a dictionary. A finite float is
  the rational number it denotes (Python compares integers with floats exactly); NaN and
  the infinities are outside the model. A string is a list of characters, one \<^typ>\<open>char\<close>
  per code point below 256. A dictionary is an association list read with \<open>map_of\<close>.
\<close>

datatype pyval =
    PNone
  | PBool bool
  | PInt int
  | PFloat rat
  | PStr string
  | PObjectId nat
  | PList "pyval list"
  | PDict "(string \<times> pyval) list"

type_synonym doc = "(string \<times> pyval) list"

text \<open>
  Every exception of the source is a value. \<open>NotModelled\<close> is not a Python exception:
  it marks the inputs on which this development does not say what Python or the store
  does (ordering two strings, lists or object ids; parsing a number from a string; a
  regular expression beyond literal characters and the dot).
\<close>

datatype error =
    KeyError
  | TypeError
  | AttributeError
  | ValueError
  | OverflowError
  | StorageUnavailable
  | NotModelled

fun mapM_err :: "('a \<Rightarrow> error + 'b) \<Rightarrow> 'a list \<Rightarrow> error + 'b list" where
  "mapM_err f [] = Inr []"
| "mapM_err f (x # xs) =
     (case f x of
        Inl e \<Rightarrow> Inl e
      | Inr y \<Rightarrow> (case mapM_err f xs of Inl e \<Rightarrow> Inl e | Inr ys \<Rightarrow> Inr (y # ys)))"

text \<open>\<^verbatim>\<open>d.get(k, default)\<close> on a dictionary.\<close>

definition dget :: "(string \<times> pyval) list \<Rightarrow> string \<Rightarrow> pyval \<Rightarrow> pyval" where
  "dget d k dflt = (case map_of d k of None \<Rightarrow> dflt | Some v \<Rightarrow> v)"

text \<open>The number a numeric value denotes; \<^verbatim>\<open>bool\<close> is a subtype of \<^verbatim>\<open>int\<close>.\<close>

fun num_of :: "pyval \<Rightarrow> rat option" where
  "num_of (PBool b) = Some (if b then 1 else 0)"
| "num_of (PInt i) = Some (of_int i)"
| "num_of (PFloat r) = Some r"
| "num_of _ = None"

text \<open>
  \<^verbatim>\<open>a < b\<close>. Two numbers compare by value. Two strings, two lists or two object ids are
  ordered by Python, which the model leaves out. Every other pair raises TypeError.
\<close>

fun same_orderable_kind :: "pyval \<Rightarrow> pyval \<Rightarrow> bool" where
  "same_orderable_kind (PStr a) (PStr b) = True"
| "same_orderable_kind (PList a) (PList b) = True"
| "same_orderable_kind (PObjectId a) (PObjectId b) = True"
| "same_orderable_kind _ _ = False"

definition py_lt :: "pyval \<Rightarrow> pyval \<Rightarrow> error + bool" where
  "py_lt a b =
     (case (num_of a, num_of b) of
        (Some x, Some y) \<Rightarrow> Inr (x < y)
      | _ \<Rightarrow> if same_orderable_kind a b then Inl NotModelled else Inl TypeError)"

text \<open>\<^verbatim>\<open>a > b\<close> is the reflected \<^verbatim>\<open>b < a\<close> on these types.\<close>

definition py_gt :: "pyval \<Rightarrow> pyval \<Rightarrow> error + bool" where
  "py_gt a b = py_lt b a"

text \<open>
  \<^verbatim>\<open>min\<close> keeps the first item and replaces it by each later item that is strictly less;
  \<open>min_from\<close> is that loop. Without a default an empty argument raises ValueError.
\<close>

fun min_from :: "pyval \<Rightarrow> pyval list \<Rightarrow> error + pyval" where
  "min_from m [] = Inr m"
| "min_from m (x # xs) =
     (case py_lt x m of
        Inl e \<Rightarrow> Inl e
      | Inr lt \<Rightarrow> min_from (if lt then x else m) xs)"

definition py_min_default :: "pyval list \<Rightarrow> pyval \<Rightarrow> error + pyval" where
  "py_min_default xs dflt = (case xs of [] \<Rightarrow> Inr dflt | x # rest \<Rightarrow> min_from x rest)"

definition py_min :: "pyval list \<Rightarrow> error + pyval" where
  "py_min xs = (case xs of [] \<Rightarrow> Inl ValueError | x # rest \<Rightarrow> min_from x rest)"

text \<open>Iterating a value: a list gives its items, a string its characters, a dictionary its keys.\<close>

fun py_iter :: "pyval \<Rightarrow> error + pyval list" where
  "py_iter (PList xs) = Inr xs"
| "py_iter (PStr s) = Inr (map (\<lambda>c. PStr [c]) s)"
| "py_iter (PDict kvs) = Inr (map (\<lambda>kv. PStr (fst kv)) kvs)"
| "py_iter _ = Inl TypeError"

text \<open>Truth value of a value, as the conditional expression of the sort key tests it.\<close>

fun py_truthy :: "pyval \<Rightarrow> bool" where
  "py_truthy PNone = False"
| "py_truthy (PBool b) = b"
| "py_truthy (PInt i) = (i \<noteq> 0)"
| "py_truthy (PFloat r) = (r \<noteq> 0)"
| "py_truthy (PStr s) = (s \<noteq> [])"
| "py_truthy (PObjectId n) = True"
| "py_truthy (PList xs) = (xs \<noteq> [])"
| "py_truthy (PDict kvs) = (kvs \<noteq> [])"

text \<open>
  The float of an integer. A float has 53 significant bits, so an integer of magnitude up
  to \<open>2 ^ 53\<close> converts exactly. A larger one is rounded to the nearest float, a tie to
  the one with an even significand: with \<open>e\<close> bits to drop, the quotient by \<open>2 ^ e\<close> goes
  up when the remainder is more than half, or is half and the quotient is odd. A result
  of \<open>2 ^ 1024\<close> or more is no float, and Python raises OverflowError.
\<close>

fun bit_length :: "nat \<Rightarrow> nat" where
  "bit_length n = (if n = 0 then 0 else Suc (bit_length (n div 2)))"

declare bit_length.simps [simp del]

definition float_of_int :: "int \<Rightarrow> rat option" where
  "float_of_int i =
     (if \<bar>i\<bar> \<le> 2 ^ 53 then Some (of_int i)
      else
        let a = nat \<bar>i\<bar>;
            e = bit_length a - 53;
            q = a div 2 ^ e;
            r = a mod 2 ^ e;
            q' = (if 2 * r > 2 ^ e \<or> (2 * r = 2 ^ e \<and> odd q) then q + 1 else q)
        in if q' * 2 ^ e \<ge> 2 ^ 1024 then None
           else Some (of_int (sgn i * int (q' * 2 ^ e))))"

text \<open>\<^verbatim>\<open>float(x)\<close>. A string is parsed, which is left out.\<close>

fun py_float :: "pyval \<Rightarrow> error + pyval" where
  "py_float (PFloat r) = Inr (PFloat r)"
| "py_float (PInt i) =
     (case float_of_int i of None \<Rightarrow> Inl OverflowError | Some r \<Rightarrow> Inr (PFloat r))"
| "py_float (PBool b) = Inr (PFloat (if b then 1 else 0))"
| "py_float (PStr s) = Inl NotModelled"
| "py_float _ = Inl TypeError"

text \<open>\<^verbatim>\<open>int(x)\<close>. A float is truncated towards zero; a string is parsed, which is left out.\<close>

fun py_int :: "pyval \<Rightarrow> error + pyval" where
  "py_int (PInt i) = Inr (PInt i)"
| "py_int (PBool b) = Inr (PInt (if b then 1 else 0))"
| "py_int (PFloat r) = Inr (PInt (if 0 \<le> r then \<lfloor>r\<rfloor> else \<lceil>r\<rceil>))"
| "py_int (PStr s) = Inl NotModelled"
| "py_int _ = Inl TypeError"

text \<open>
  \<^verbatim>\<open>str(x)\<close>, which never raises. The result is a text: its characters where the model
  computes them (an object id prints as its 24 hexadecimal digits), and otherwise
  \<open>TextOf x\<close>, the text that Python prints for the number or container \<open>x\<close>.
\<close>

datatype pytext = Text string | TextOf pyval

definition hex_digit :: "nat \<Rightarrow> char" where
  "hex_digit n = ''0123456789abcdef'' ! (n mod 16)"

fun hex_digits :: "nat \<Rightarrow> nat \<Rightarrow> string" where
  "hex_digits 0 n = []"
| "hex_digits (Suc k) n = hex_digits k (n div 16) @ [hex_digit n]"

definition hex24 :: "nat \<Rightarrow> string" where
  "hex24 n = hex_digits 24 n"

fun py_str :: "pyval \<Rightarrow> pytext" where
  "py_str PNone = Text ''None''"
| "py_str (PStr s) = Text s"
| "py_str (PBool b) = Text (if b then ''True'' else ''False'')"
| "py_str (PObjectId n) = Text (hex24 n)"
| "py_str v = TextOf v"

text \<open>
  \<^verbatim>\<open>list.sort(key=...)\<close> on the keys already computed. A list of at most one item is
  returned without any comparison. Otherwise every item is compared with another one:
  numeric keys give the stable sort by value; keys of one orderable kind that is not
  numeric are sorted by an order the model leaves out; any other mix raises TypeError.
\<close>

fun all_same_orderable_kind :: "pyval list \<Rightarrow> bool" where
  "all_same_orderable_kind [] = True"
| "all_same_orderable_kind (k # ks) = list_all (same_orderable_kind k) ks"

definition py_sort :: "(pyval \<times> 'a) list \<Rightarrow> error + 'a list" where
  "py_sort kvs =
     (if length kvs \<le> 1 then Inr (map snd kvs)
      else case those (map (\<lambda>kv. num_of (fst kv)) kvs) of
             Some ns \<Rightarrow> Inr (map snd (sort_key fst (zip ns (map snd kvs))))
           | None \<Rightarrow>
               if all_same_orderable_kind (map fst kvs) then Inl NotModelled
               else Inl TypeError)"

section \<open>The document store\<close>

text \<open>
  The predicate \<^verbatim>\<open>f\<close> that \<^verbatim>\<open>list_hotels\<close> builds has at most two entries, each one
  operator on one field: \<^verbatim>\<open>{"$regex": p, "$options": o}\<close> and \<^verbatim>\<open>{"$gte": r}\<close>.
\<close>

datatype cond = Regex string string | Gte rat

type_synonym query = "(string \<times> cond) list"

text \<open>
  The store evaluates \<^verbatim>\<open>$regex\<close> as an unanchored regular-expression search. The model
  covers the patterns made of literal ASCII characters (the eighth bit clear) and the
  dot, which matches any character but a newline, with the option \<^verbatim>\<open>i\<close> (the
  letters A to Z match in either case).
\<close>

definition regex_special :: "char \<Rightarrow> bool" where
  "regex_special c =
     (c \<in> set [CHR 0x5C, CHR 0x5E, CHR 0x24, CHR 0x5B, CHR 0x5D, CHR 0x7C, CHR 0x28,
                CHR 0x29, CHR 0x3F, CHR 0x2A, CHR 0x2B, CHR 0x7B, CHR 0x7D])"

definition pattern_modelled :: "string \<Rightarrow> bool" where
  "pattern_modelled p = list_all (\<lambda>c. \<not> regex_special c \<and> \<not> digit7 c) p"

definition lower :: "char \<Rightarrow> char" where
  "lower c =
     (case map_of (zip ''ABCDEFGHIJKLMNOPQRSTUVWXYZ'' ''abcdefghijklmnopqrstuvwxyz'') c of
        None \<Rightarrow> c
      | Some l \<Rightarrow> l)"

fun match_here :: "string \<Rightarrow> string \<Rightarrow> bool" where
  "match_here [] s = True"
| "match_here (c # p) [] = False"
| "match_here (c # p) (x # s) =
     ((if c = CHR ''.'' then x \<noteq> CHR 0x0A else lower c = lower x) \<and> match_here p s)"

fun regex_search :: "string \<Rightarrow> string \<Rightarrow> bool" where
  "regex_search p [] = match_here p []"
| "regex_search p (x # s) = (match_here p (x # s) \<or> regex_search p s)"

text \<open>
  A condition holds of a field when the field's value satisfies it, or when the value is
  an array with an element that does. \<^verbatim>\<open>$regex\<close> matches strings only and \<^verbatim>\<open>$gte\<close>
  against a number matches numbers only.
\<close>

fun cond_scalar :: "cond \<Rightarrow> pyval \<Rightarrow> bool" where
  "cond_scalar (Regex p opts) (PStr s) = regex_search p s"
| "cond_scalar (Regex p opts) _ = False"
| "cond_scalar (Gte r) (PInt i) = (r \<le> of_int i)"
| "cond_scalar (Gte r) (PFloat x) = (r \<le> x)"
| "cond_scalar (Gte r) _ = False"

fun cond_holds :: "cond \<Rightarrow> pyval option \<Rightarrow> bool" where
  "cond_holds c None = False"
| "cond_holds c (Some (PList xs)) = list_ex (cond_scalar c) xs"
| "cond_holds c (Some v) = cond_scalar c v"

definition matches :: "query \<Rightarrow> doc \<Rightarrow> bool" where
  "matches q d = list_all (\<lambda>fc. cond_holds (snd fc) (map_of d (fst fc))) q"

fun cond_modelled :: "cond \<Rightarrow> bool" where
  "cond_modelled (Regex p opts) = (pattern_modelled p \<and> opts = ''i'')"
| "cond_modelled (Gte r) = True"

definition query_modelled :: "query \<Rightarrow> bool" where
  "query_modelled q = list_all (\<lambda>fc. cond_modelled (snd fc)) q"

text \<open>
  The state of the store: the records of the \<^verbatim>\<open>hotel\<close> collection in their natural
  order and the next identifier the store assigns. The handle \<^verbatim>\<open>db\<close> is \<^verbatim>\<open>None\<close>
  when no store is configured.
\<close>

record store =
  hotel :: "doc list"
  next_oid :: nat

type_synonym db = "store option"

text \<open>\<^verbatim>\<open>db["hotel"].count_documents({})\<close>.\<close>

definition count_documents :: "store \<Rightarrow> nat" where
  "count_documents s = length (hotel s)"

text \<open>
  Modelled from the spec: \<^verbatim>\<open>create_document\<close> of the module \<^verbatim>\<open>database\<close>, which is
  not among the sources. The spec gives the store an \<^verbatim>\<open>insert(collection, record) -> id\<close>
  and calls the identifier opaque and database-assigned: the record is appended with a
  fresh \<^verbatim>\<open>_id\<close>.
\<close>

definition create_document :: "store \<Rightarrow> doc \<Rightarrow> store" where
  "create_document s h =
     s\<lparr>hotel := hotel s @ [(''_id'', PObjectId (next_oid s)) # h],
       next_oid := Suc (next_oid s)\<rparr>"

text \<open>
  Modelled from the spec: \<^verbatim>\<open>get_documents\<close> of the module \<^verbatim>\<open>database\<close>, which is not
  among the sources. The spec gives the store a \<^verbatim>\<open>find(collection, filter, limit)\<close> that
  fetches up to \<^verbatim>\<open>limit\<close> raw records matching the predicate, and lets an unreachable
  store propagate as an error.
\<close>

definition get_documents :: "db \<Rightarrow> query \<Rightarrow> nat \<Rightarrow> error + doc list" where
  "get_documents d q n =
     (case d of
        None \<Rightarrow> Inl StorageUnavailable
      | Some s \<Rightarrow>
          if query_modelled q then Inr (take n (filter (matches q) (hotel s)))
          else Inl NotModelled)"

section \<open>Seeding\<close>

definition offer :: "string \<Rightarrow> int \<Rightarrow> pyval" where
  "offer n p = PDict [(''name'', PStr n), (''price'', PInt p)]"

text \<open>
  The sample hotels. A float literal of the source is written as the rational that the
  float is: \<^verbatim>\<open>8.9\<close> is \<open>5010254585449677 / 2 ^ 49\<close>, \<^verbatim>\<open>9.2\<close> is
  \<open>2589569785738035 / 2 ^ 48\<close>, \<^verbatim>\<open>8.6\<close> is \<open>4841369599423283 / 2 ^ 49\<close> and \<^verbatim>\<open>9.5\<close> is
  \<open>19 / 2\<close>.
\<close>

definition sample_hotels :: "doc list" where
  "sample_hotels =
     [ [(''name'', PStr ''Seaside Vista Resort''),
        (''location'', PStr ''Miami Beach, USA''),
        (''rating'', PFloat (5010254585449677 / 562949953421312)),
        (''reviews'', PInt 2312),
        (''image'', PStr ''https://images.unsplash.com/photo-1501117716987-c8e01f2a0a3a?q=80&w=2070&auto=format&fit=crop''),
        (''offers'', PList [offer ''Booking.com'' 182, offer ''Expedia'' 176, offer ''Hotels.com'' 189])],
       [(''name'', PStr ''Alpine Lodge & Spa''),
        (''location'', PStr ''Zermatt, Switzerland''),
        (''rating'', PFloat (2589569785738035 / 281474976710656)),
        (''reviews'', PInt 1348),
        (''image'', PStr ''https://images.unsplash.com/photo-1528909514045-2fa4ac7a08ba?q=80&w=2070&auto=format&fit=crop''),
        (''offers'', PList [offer ''Booking.com'' 245, offer ''Expedia'' 239, offer ''Hotels.com'' 252])],
       [(''name'', PStr ''City Center Boutique Hotel''),
        (''location'', PStr ''Tokyo, Japan''),
        (''rating'', PFloat (4841369599423283 / 562949953421312)),
        (''reviews'', PInt 5120),
        (''image'', PStr ''https://images.unsplash.com/photo-1551882547-ff40c63fe5fa?q=80&w=2070&auto=format&fit=crop''),
        (''offers'', PList [offer ''Booking.com'' 128, offer ''Expedia'' 119, offer ''Hotels.com'' 130])],
       [(''name'', PStr ''Lagoon Overwater Villas''),
        (''location'', PStr (''Mal'' @ [CHR 0xE9] @ '', Maldives'')),
        (''rating'', PFloat (19 / 2)),
        (''reviews'', PInt 874),
        (''image'', PStr ''https://images.unsplash.com/photo-1519710164239-da123dc03ef4?q=80&w=2070&auto=format&fit=crop''),
        (''offers'', PList [offer ''Booking.com'' 612, offer ''Expedia'' 598, offer ''Hotels.com'' 629])] ]"

text \<open>
  \<^verbatim>\<open>_ensure_seed_hotels\<close>: nothing without a store, nothing when the collection has a
  record, otherwise one insert for each sample hotel in order.
\<close>

definition ensure_seed_hotels :: "db \<Rightarrow> db" where
  "ensure_seed_hotels d =
     (case d of
        None \<Rightarrow> None
      | Some s \<Rightarrow>
          if count_documents s > 0 then Some s
          else Some (foldl create_document s sample_hotels))"

section \<open>The listing\<close>

text \<open>
  The response dictionary that the loop appends has the same seven keys every time, so
  it is a record; \<^verbatim>\<open>h.get("offers")\<close> and \<^verbatim>\<open>h.get("offers", [])\<close> read its field.
\<close>

record hotel_out =
  h_id :: pytext
  h_name :: pyval
  h_location :: pyval
  h_rating :: pyval
  h_reviews :: pyval
  h_image :: pyval
  h_offers :: pyval

text \<open>\<^verbatim>\<open>o.get("price", 0)\<close>: only a dictionary has \<^verbatim>\<open>get\<close>.\<close>

fun get_price_or_0 :: "pyval \<Rightarrow> error + pyval" where
  "get_price_or_0 (PDict kvs) = Inr (dget kvs ''price'' (PInt 0))"
| "get_price_or_0 _ = Inl AttributeError"

text \<open>\<^verbatim>\<open>min([o.get("price", 0) for o in offers], default=None)\<close>.\<close>

definition best_price :: "pyval \<Rightarrow> error + pyval" where
  "best_price offers =
     (case py_iter offers of
        Inl e \<Rightarrow> Inl e
      | Inr os \<Rightarrow>
          (case mapM_err get_price_or_0 os of
             Inl e \<Rightarrow> Inl e
           | Inr ps \<Rightarrow> py_min_default ps PNone))"

text \<open>
  \<^verbatim>\<open>max_price is not None and best_price is not None and best_price > max_price\<close>,
  evaluated left to right.
\<close>

definition excluded :: "rat option \<Rightarrow> pyval \<Rightarrow> error + bool" where
  "excluded max_price bp =
     (case max_price of
        None \<Rightarrow> Inr False
      | Some mp \<Rightarrow> if bp = PNone then Inr False else py_gt bp (PFloat mp))"

text \<open>
  The dictionary display of the loop. Its values are evaluated in the order written;
  \<^verbatim>\<open>str\<close> and \<^verbatim>\<open>get\<close> raise nothing, so the first error is that of \<^verbatim>\<open>float\<close>, then
  that of \<^verbatim>\<open>int\<close>.
\<close>

definition project :: "doc \<Rightarrow> pyval \<Rightarrow> error + hotel_out" where
  "project d offers =
     (case py_float (dget d ''rating'' (PInt 0)) of
        Inl e \<Rightarrow> Inl e
      | Inr r \<Rightarrow>
          (case py_int (dget d ''reviews'' (PInt 0)) of
             Inl e \<Rightarrow> Inl e
           | Inr n \<Rightarrow>
               Inr \<lparr>h_id = py_str (dget d ''_id'' PNone), h_name = dget d ''name'' PNone,
                    h_location = dget d ''location'' PNone, h_rating = r,
                    h_reviews = n, h_image = dget d ''image'' PNone,
                    h_offers = offers\<rparr>))"

text \<open>One pass of the loop body: \<open>None\<close> is \<^verbatim>\<open>continue\<close>.\<close>

definition loop_body :: "rat option \<Rightarrow> doc \<Rightarrow> error + hotel_out option" where
  "loop_body max_price d =
     (let offers = dget d ''offers'' (PList []) in
      case best_price offers of
        Inl e \<Rightarrow> Inl e
      | Inr bp \<Rightarrow>
          (case excluded max_price bp of
             Inl e \<Rightarrow> Inl e
           | Inr True \<Rightarrow> Inr None
           | Inr False \<Rightarrow>
               (case project d offers of Inl e \<Rightarrow> Inl e | Inr h \<Rightarrow> Inr (Some h))))"

fun filter_hotels :: "rat option \<Rightarrow> doc list \<Rightarrow> error + hotel_out list" where
  "filter_hotels max_price [] = Inr []"
| "filter_hotels max_price (d # ds) =
     (case loop_body max_price d of
        Inl e \<Rightarrow> Inl e
      | Inr r \<Rightarrow>
          (case filter_hotels max_price ds of
             Inl e \<Rightarrow> Inl e
           | Inr hs \<Rightarrow> Inr (case r of None \<Rightarrow> hs | Some h \<Rightarrow> h # hs)))"

text \<open>\<^verbatim>\<open>o["price"]\<close>: a missing key raises KeyError, a value that is no dictionary TypeError.\<close>

fun get_price :: "pyval \<Rightarrow> error + pyval" where
  "get_price (PDict kvs) = (case map_of kvs ''price'' of None \<Rightarrow> Inl KeyError | Some v \<Rightarrow> Inr v)"
| "get_price _ = Inl TypeError"

text \<open>
  The sort key:
  \<^verbatim>\<open>min([o["price"] for o in h.get("offers", [])]) if h.get("offers") else 1e9\<close>.
\<close>

definition sentinel :: rat where
  "sentinel = 1000000000"

definition hotel_key :: "hotel_out \<Rightarrow> error + pyval" where
  "hotel_key h =
     (if py_truthy (h_offers h) then
        (case py_iter (h_offers h) of
           Inl e \<Rightarrow> Inl e
         | Inr os \<Rightarrow> (case mapM_err get_price os of Inl e \<Rightarrow> Inl e | Inr ps \<Rightarrow> py_min ps))
      else Inr (PFloat sentinel))"

text \<open>\<^verbatim>\<open>hotels.sort(key=...)\<close>: every key is computed first, then the list is sorted.\<close>

definition sort_hotels :: "hotel_out list \<Rightarrow> error + hotel_out list" where
  "sort_hotels hs =
     (case mapM_err hotel_key hs of
        Inl e \<Rightarrow> Inl e
      | Inr ks \<Rightarrow> py_sort (zip ks hs))"

text \<open>The storage predicate \<^verbatim>\<open>f\<close>: an empty destination is falsy and adds nothing.\<close>

definition build_filter :: "string option \<Rightarrow> rat option \<Rightarrow> query" where
  "build_filter destination min_rating =
     (case destination of
        None \<Rightarrow> []
      | Some dst \<Rightarrow> if dst \<noteq> [] then [(''location'', Regex dst ''i'')] else [])
     @ (case min_rating of None \<Rightarrow> [] | Some r \<Rightarrow> [(''rating'', Gte r)])"

text \<open>
  \<^verbatim>\<open>list_hotels\<close> returns the sorted list or the error raised, together with the state
  of the store after the call. The bounds on the query parameters are checked by the web
  framework before the call.
\<close>

definition list_hotels ::
  "db \<Rightarrow> string option \<Rightarrow> rat option \<Rightarrow> rat option \<Rightarrow> nat \<Rightarrow> (error + hotel_out list) \<times> db" where
  "list_hotels d destination max_price min_rating limit =
     (let d' = ensure_seed_hotels d;
          f = build_filter destination min_rating
      in (case get_documents d' f limit of
            Inl e \<Rightarrow> Inl e
          | Inr docs \<Rightarrow>
              (case filter_hotels max_price docs of
                 Inl e \<Rightarrow> Inl e
               | Inr hs \<Rightarrow> sort_hotels hs),
          d'))"

section \<open>The data model of the stored records\<close>

text \<open>
  The spec describes an offer as a provider name with a price that is a number, and the
  offers of a hotel as a sequence of offers. \<open>offers_typed\<close> says so of one record, with
  the field \<^verbatim>\<open>offers\<close> and the key \<^verbatim>\<open>price\<close> allowed to be missing; \<open>db_typed\<close>
  says it of every record of the collection.
\<close>

definition offer_typed :: "pyval \<Rightarrow> bool" where
  "offer_typed v =
     (case v of
        PDict kvs \<Rightarrow> (case map_of kvs ''price'' of None \<Rightarrow> True | Some p \<Rightarrow> num_of p \<noteq> None)
      | _ \<Rightarrow> False)"

definition offers_typed :: "doc \<Rightarrow> bool" where
  "offers_typed d =
     (case map_of d ''offers'' of
        None \<Rightarrow> True
      | Some (PList os) \<Rightarrow> list_all offer_typed os
      | Some _ \<Rightarrow> False)"

definition db_typed :: "db \<Rightarrow> bool" where
  "db_typed d = (case d of None \<Rightarrow> True | Some s \<Rightarrow> list_all offers_typed (hotel s))"

text \<open>
  The spec's glossary: the best or cheapest price of a hotel is the minimum price among
  its offers, and it is undefined when there are no offers. \<open>spec_cheapest_price\<close>
  follows these words over the prices that \<^verbatim>\<open>o["price"]\<close> reads.
\<close>

definition spec_cheapest_price :: "pyval \<Rightarrow> rat option" where
  "spec_cheapest_price offers =
     (case offers of
        PList os \<Rightarrow>
          (case mapM_err get_price os of
             Inl e \<Rightarrow> None
           | Inr ps \<Rightarrow>
               (case those (map num_of ps) of
                  None \<Rightarrow> None
                | Some xs \<Rightarrow> if xs = [] then None else Some (Min (set xs))))
      | _ \<Rightarrow> None)"

text \<open>The number that the sort key of a hotel denotes, when the key is a number.\<close>

definition key_num :: "hotel_out \<Rightarrow> rat option" where
  "key_num h = (case hotel_key h of Inl e \<Rightarrow> None | Inr k \<Rightarrow> num_of k)"






text \<open>The price an offer counts with in the filter is a number that is not negative.\<close>

definition price_nonneg :: "pyval \<Rightarrow> bool" where
  "price_nonneg v =
     (case get_price_or_0 v of
        Inl e \<Rightarrow> False
      | Inr p \<Rightarrow> (case num_of p of None \<Rightarrow> False | Some b \<Rightarrow> 0 \<le> b))"

text \<open>
  The spec's reading of the destination filter: the location contains the destination
  as a substring, compared without regard to the case of letters.
\<close>

fun prefix_ci :: "string \<Rightarrow> string \<Rightarrow> bool" where
  "prefix_ci [] s = True"
| "prefix_ci (c # p) [] = False"
| "prefix_ci (c # p) (x # s) = (lower c = lower x \<and> prefix_ci p s)"

fun contains_ci :: "string \<Rightarrow> string \<Rightarrow> bool" where
  "contains_ci p [] = prefix_ci p []"
| "contains_ci p (x # s) = (prefix_ci p (x # s) \<or> contains_ci p s)"

section \<open>Example stores\<close>

definition priced_db :: db where
  "priced_db = Some \<lparr>hotel =
     [[(''_id'', PObjectId 7), (''name'', PStr ''Harbour Inn''),
       (''offers'', PList [PDict [(''name'', PStr ''Expedia''), (''price'', PInt 100)]])],
      [(''_id'', PObjectId 8), (''name'', PStr ''Empty House'')]], next_oid = 9\<rparr>"

definition priced_out :: "hotel_out list" where
  "priced_out =
     [\<lparr>h_id = Text (hex24 7), h_name = PStr ''Harbour Inn'', h_location = PNone,
       h_rating = PFloat 0, h_reviews = PInt 0, h_image = PNone,
       h_offers = PList [PDict [(''name'', PStr ''Expedia''), (''price'', PInt 100)]]\<rparr>,
      \<lparr>h_id = Text (hex24 8), h_name = PStr ''Empty House'', h_location = PNone,
       h_rating = PFloat 0, h_reviews = PInt 0, h_image = PNone, h_offers = PList []\<rparr>]"

definition dear_db :: db where
  "dear_db = Some \<lparr>hotel =
     [[(''_id'', PObjectId 0), (''name'', PStr ''No Offers Lodge'')],
      [(''_id'', PObjectId 1), (''name'', PStr ''Grand Palace''),
       (''offers'', PList [PDict [(''name'', PStr ''Expedia''), (''price'', PInt 2000000000)]])]],
     next_oid = 2\<rparr>"

definition priceless_db :: db where
  "priceless_db = Some \<lparr>hotel =
     [[(''_id'', PObjectId 0), (''name'', PStr ''No Price Inn''),
       (''offers'', PList [PDict [(''name'', PStr ''Expedia'')]])]], next_oid = 1\<rparr>"

definition queue_db :: db where
  "queue_db = Some \<lparr>hotel =
     [[(''_id'', PObjectId 0), (''name'', PStr ''Grand Palace''),
       (''offers'', PList [PDict [(''name'', PStr ''Expedia''), (''price'', PInt 500)]])],
      [(''_id'', PObjectId 1), (''name'', PStr ''Royal Suites''),
       (''offers'', PList [PDict [(''name'', PStr ''Expedia''), (''price'', PInt 400)]])],
      [(''_id'', PObjectId 2), (''name'', PStr ''Budget Inn''),
       (''offers'', PList [PDict [(''name'', PStr ''Expedia''), (''price'', PInt 100)]])]],
     next_oid = 3\<rparr>"








section \<open>Evaluation and the shape of a successful call\<close>

lemmas eval_defs = list_hotels_def ensure_seed_hotels_def count_documents_def create_document_def
  sample_hotels_def offer_def get_documents_def query_modelled_def matches_def build_filter_def
  loop_body_def best_price_def excluded_def project_def dget_def py_min_default_def py_min_def
  py_lt_def py_gt_def sort_hotels_def hotel_key_def py_sort_def sentinel_def
  pattern_modelled_def regex_special_def lower_def float_of_int_def

lemma mapM_err_Inr: "mapM_err f xs = Inr ys \<Longrightarrow> list_all2 (\<lambda>x y. f x = Inr y) xs ys"
  by (induction xs arbitrary: ys) (auto split: sum.splits)

lemma mapM_err_cong_Inr:
  "mapM_err f xs = Inr ys \<Longrightarrow> (\<And>x y. x \<in> set xs \<Longrightarrow> f x = Inr y \<Longrightarrow> g x = Inr y) \<Longrightarrow> mapM_err g xs = Inr ys"
  by (induction xs arbitrary: ys) (auto split: sum.splits)

lemma min_from_num:
  "num_of m \<noteq> None \<Longrightarrow> list_all (\<lambda>x. num_of x \<noteq> None) xs \<Longrightarrow>
   \<exists>k a. min_from m xs = Inr k \<and> k \<in> set (m # xs) \<and> num_of k = Some a \<and>
     (\<forall>y\<in>set (m # xs). \<exists>b. num_of y = Some b \<and> a \<le> b)"
proof (induction xs arbitrary: m)
  case Nil
  then show ?case by auto
next
  case (Cons x xs)
  from Cons.prems obtain a b where ab: "num_of m = Some a" "num_of x = Some b" by auto
  let ?m' = "if b < a then x else m"
  have step: "min_from m (x # xs) = min_from ?m' xs" using ab by (simp add: py_lt_def)
  have "num_of ?m' \<noteq> None" using ab by simp
  moreover have "list_all (\<lambda>x. num_of x \<noteq> None) xs" using Cons.prems by simp
  ultimately obtain k c where k: "min_from ?m' xs = Inr k" "k \<in> set (?m' # xs)" "num_of k = Some c"
    "\<forall>y\<in>set (?m' # xs). \<exists>b. num_of y = Some b \<and> c \<le> b"
    using Cons.IH[of ?m'] by blast
  have "\<exists>b'. num_of ?m' = Some b' \<and> c \<le> b'" using k(4) by simp
  then have "c \<le> a \<and> c \<le> b" using ab by (auto split: if_splits)
  then have "\<forall>y\<in>set (m # x # xs). \<exists>b. num_of y = Some b \<and> c \<le> b" using k(4) ab by auto
  moreover have "k \<in> set (m # x # xs)" using k(2) by (auto split: if_splits)
  ultimately show ?case using step k(1,3) by auto
qed

lemma filter_hotels_length: "filter_hotels mp ds = Inr hs \<Longrightarrow> length hs \<le> length ds"
  by (induction ds arbitrary: hs) (auto split: sum.splits option.splits)

lemma filter_hotels_mem:
  "filter_hotels mp ds = Inr hs \<Longrightarrow> h \<in> set hs \<Longrightarrow> \<exists>d\<in>set ds. loop_body mp d = Inr (Some h)"
  by (induction ds arbitrary: hs) (auto split: sum.splits option.splits)

lemma filter_hotels_kept:
  "filter_hotels mp ds = Inr hs \<Longrightarrow> d \<in> set ds \<Longrightarrow> loop_body mp d = Inr (Some h) \<Longrightarrow> h \<in> set hs"
  by (induction ds arbitrary: hs) (auto split: sum.splits option.splits)

lemma filter_hotels_total:
  "filter_hotels mp ds = Inr hs \<Longrightarrow> d \<in> set ds \<Longrightarrow> \<exists>r. loop_body mp d = Inr r"
  by (induction ds arbitrary: hs) (auto split: sum.splits option.splits)


lemma those_map_Some: "those (map Some ns) = Some ns"
  by (induction ns) auto

lemma py_sort_numeric:
  assumes "map (\<lambda>kv. num_of (fst kv)) kvs = map Some ns"
  shows "py_sort kvs = Inr (map snd (sort_key fst (zip ns (map snd kvs))))"
proof (cases "length kvs \<le> 1")
  case True
  have len: "length ns = length kvs" using assms by (metis length_map)
  from True consider "kvs = []" | kv where "kvs = [kv]"
    by (cases kvs) (auto simp: le_Suc_eq)
  then show ?thesis
  proof cases
    case 1
    then show ?thesis using len by (simp add: py_sort_def)
  next
    case 2
    then obtain n where "ns = [n]" using len by (cases ns) auto
    then show ?thesis using 2 by (simp add: py_sort_def)
  qed
next
  case False
  then show ?thesis using assms by (simp add: py_sort_def those_map_Some)
qed

lemma mapM_hotel_key_numeric:
  "map key_num hs = map Some ns \<Longrightarrow>
   \<exists>ks. mapM_err hotel_key hs = Inr ks \<and> map num_of ks = map Some ns"
proof (induction hs arbitrary: ns)
  case Nil
  then show ?case by simp
next
  case (Cons h hs)
  then obtain n ns' where ns: "ns = n # ns'" by (cases ns) auto
  with Cons.prems have h: "key_num h = Some n" and t: "map key_num hs = map Some ns'" by auto
  from h obtain k where k: "hotel_key h = Inr k" "num_of k = Some n"
    by (auto simp: key_num_def split: sum.splits)
  from Cons.IH[OF t] obtain ks where "mapM_err hotel_key hs = Inr ks" "map num_of ks = map Some ns'"
    by blast
  then show ?case using k ns by simp
qed

lemma sort_hotels_numeric:
  assumes "map key_num hs = map Some ns"
  shows "sort_hotels hs = Inr (map snd (sort_key fst (zip ns hs)))"
proof -
  from mapM_hotel_key_numeric[OF assms] obtain ks where
    ks: "mapM_err hotel_key hs = Inr ks" "map num_of ks = map Some ns" by blast
  have len: "length ks = length hs"
    using assms ks(2) by (metis length_map)
  have "map (\<lambda>kv. num_of (fst kv)) (zip ks hs) = map num_of (map fst (zip ks hs))" by simp
  also have "\<dots> = map Some ns" using len ks(2) by simp
  finally have "py_sort (zip ks hs) = Inr (map snd (sort_key fst (zip ns (map snd (zip ks hs)))))"
    by (rule py_sort_numeric)
  then show ?thesis using ks(1) len by (simp add: sort_hotels_def)
qed

lemma zip_key_num:
  assumes "map key_num hs = map Some ns" "(n, h) \<in> set (zip ns hs)"
  shows "key_num h = Some n"
proof -
  from assms(2) obtain i where i: "i < length ns" "i < length hs" "ns ! i = n" "hs ! i = h"
    by (auto simp: in_set_zip)
  have "map key_num hs ! i = map Some ns ! i" using assms(1) by simp
  then show ?thesis using i by simp
qed

lemma sorted_result:
  assumes "map key_num hs = map Some ns"
  defines "zs \<equiv> sort_key fst (zip ns hs)"
  shows "map key_num (map snd zs) = map Some (map fst zs)" and "sorted (map fst zs)"
    and "mset (map snd zs) = mset hs"
proof -
  have "\<And>p. p \<in> set zs \<Longrightarrow> key_num (snd p) = Some (fst p)"
    using zip_key_num[OF assms(1)] by (auto simp: zs_def)
  then show "map key_num (map snd zs) = map Some (map fst zs)" by simp
  show "sorted (map fst zs)" by (simp add: zs_def)
  have len: "length ns = length hs" using assms(1) by (metis length_map)
  have "mset (map snd zs) = image_mset snd (mset (zip ns hs))" by (simp add: zs_def)
  also have "\<dots> = mset (map snd (zip ns hs))" by simp
  also have "\<dots> = mset hs" using len by simp
  finally show "mset (map snd zs) = mset hs" .
qed


lemma get_price_typed:
  "offer_typed v \<Longrightarrow> get_price v = Inr p \<Longrightarrow> num_of p \<noteq> None"
  by (cases v) (auto simp: offer_typed_def split: option.splits)

lemma get_price_or_0_typed:
  "offer_typed v \<Longrightarrow> \<exists>p. get_price_or_0 v = Inr p \<and> num_of p \<noteq> None"
  by (cases v) (auto simp: offer_typed_def dget_def split: option.splits)

lemma get_price_or_0_of_get_price: "get_price v = Inr p \<Longrightarrow> get_price_or_0 v = Inr p"
  by (cases v) (auto simp: dget_def split: option.splits)

lemma py_min_num:
  assumes "ps \<noteq> []" "list_all (\<lambda>x. num_of x \<noteq> None) ps"
  shows "\<exists>k a. py_min ps = Inr k \<and> py_min_default ps dflt = Inr k \<and> k \<in> set ps \<and>
           num_of k = Some a \<and> (\<forall>y\<in>set ps. \<exists>b. num_of y = Some b \<and> a \<le> b)"
proof -
  from assms obtain p rest where ps: "ps = p # rest" by (cases ps) auto
  with assms(2) have "num_of p \<noteq> None" "list_all (\<lambda>x. num_of x \<noteq> None) rest" by auto
  from min_from_num[OF this] show ?thesis by (simp add: ps py_min_def py_min_default_def)
qed

lemma typed_prices:
  assumes "list_all offer_typed os" "mapM_err get_price os = Inr ps"
  shows "list_all (\<lambda>x. num_of x \<noteq> None) ps"
proof -
  have "list_all2 (\<lambda>x y. get_price x = Inr y) os ps" using assms(2) by (rule mapM_err_Inr)
  then show ?thesis using assms(1)
    by (induction rule: list_all2_induct) (auto dest: get_price_typed)
qed

lemma typed_key:
  assumes "h_offers h = PList os" "list_all offer_typed os" "hotel_key h = Inr k"
  shows "num_of k \<noteq> None"
proof (cases "os = []")
  case True
  with assms show ?thesis by (auto simp: hotel_key_def)
next
  case False
  with assms obtain ps where ps: "mapM_err get_price os = Inr ps" "py_min ps = Inr k"
    by (auto simp: hotel_key_def split: sum.splits)
  have "length ps = length os" using mapM_err_Inr[OF ps(1)] by (simp add: list_all2_lengthD)
  with False have "ps \<noteq> []" by auto
  from py_min_num[OF this typed_prices[OF assms(2) ps(1)]] ps(2) show ?thesis by auto
qed

lemma hotel_key_best_price:
  assumes "py_truthy (h_offers h)" "hotel_key h = Inr k"
  shows "best_price (h_offers h) = Inr k"
proof -
  from assms obtain os ps where os: "py_iter (h_offers h) = Inr os"
    and ps: "mapM_err get_price os = Inr ps" and k: "py_min ps = Inr k"
    by (auto simp: hotel_key_def split: sum.splits)
  have "mapM_err get_price_or_0 os = Inr ps"
    using ps by (rule mapM_err_cong_Inr) (rule get_price_or_0_of_get_price)
  moreover have "ps \<noteq> []" using k by (auto simp: py_min_def)
  then have "py_min_default ps PNone = py_min ps"
    by (cases ps) (auto simp: py_min_def py_min_default_def)
  ultimately show ?thesis using os k by (simp add: best_price_def)
qed

lemma loop_body_Some:
  assumes "loop_body mp d = Inr (Some h)"
  shows "h_offers h = dget d ''offers'' (PList [])"
    and "\<exists>bp. best_price (h_offers h) = Inr bp \<and> excluded mp bp = Inr False"
    and "project d (h_offers h) = Inr h"
proof -
  let ?os = "dget d ''offers'' (PList [])"
  from assms obtain bp where bp: "best_price ?os = Inr bp" "excluded mp bp = Inr False"
    and pr: "project d ?os = Inr h"
    by (auto simp: loop_body_def Let_def split: sum.splits bool.splits if_splits)
  from pr show o: "h_offers h = ?os"
    by (auto simp: project_def split: sum.splits)
  from bp o show "\<exists>bp. best_price (h_offers h) = Inr bp \<and> excluded mp bp = Inr False" by auto
  from pr o show "project d (h_offers h) = Inr h" by simp
qed

lemma offers_typed_dget:
  "offers_typed d \<Longrightarrow> \<exists>os. dget d ''offers'' (PList []) = PList os \<and> list_all offer_typed os"
  by (auto simp: offers_typed_def dget_def split: option.splits pyval.splits)

lemma ensure_seed_typed: "db_typed d \<Longrightarrow> db_typed (ensure_seed_hotels d)"
  by (auto simp: db_typed_def ensure_seed_hotels_def create_document_def sample_hotels_def
      offers_typed_def offer_typed_def offer_def split: option.splits)

lemma get_documents_subset:
  "get_documents d q n = Inr docs \<Longrightarrow> \<exists>s. d = Some s \<and> set docs \<subseteq> set (hotel s) \<and> length docs \<le> n"
  by (auto simp: get_documents_def split: option.splits if_splits dest: in_set_takeD)

lemma fetched_typed:
  assumes "db_typed d" "get_documents (ensure_seed_hotels d) q n = Inr docs" "dc \<in> set docs"
  shows "offers_typed dc"
proof -
  from get_documents_subset[OF assms(2)] obtain s where
    s: "ensure_seed_hotels d = Some s" "set docs \<subseteq> set (hotel s)" by blast
  from ensure_seed_typed[OF assms(1)] s(1) have "list_all offers_typed (hotel s)"
    by (simp add: db_typed_def)
  with s(2) assms(3) show ?thesis by (auto simp: list_all_iff)
qed

lemma list_hotels_Inr:
  assumes "fst (list_hotels d dest mp mr n) = Inr hs"
  shows "\<exists>docs hs0. get_documents (ensure_seed_hotels d) (build_filter dest mr) n = Inr docs \<and>
           filter_hotels mp docs = Inr hs0 \<and> sort_hotels hs0 = Inr hs"
  using assms by (auto simp: list_hotels_def Let_def split: sum.splits)


lemma those_Some: "those xs = Some ys \<Longrightarrow> xs = map Some ys"
  by (induction xs arbitrary: ys) (auto split: option.splits)

lemma py_sort_length: "py_sort kvs = Inr vs \<Longrightarrow> length vs = length kvs"
proof (cases "length kvs \<le> 1")
  case True
  assume "py_sort kvs = Inr vs"
  with True show ?thesis by (auto simp: py_sort_def)
next
  case False
  assume a: "py_sort kvs = Inr vs"
  with False obtain ns where ns: "those (map (\<lambda>kv. num_of (fst kv)) kvs) = Some ns"
    and vs: "vs = map snd (sort_key fst (zip ns (map snd kvs)))"
    by (auto simp: py_sort_def split: option.splits if_splits)
  have "length ns = length kvs" using those_Some[OF ns] by (metis length_map)
  then show ?thesis using vs by simp
qed

lemma sort_hotels_length: "sort_hotels hs0 = Inr hs \<Longrightarrow> length hs = length hs0"
proof -
  assume a: "sort_hotels hs0 = Inr hs"
  then obtain ks where ks: "mapM_err hotel_key hs0 = Inr ks" "py_sort (zip ks hs0) = Inr hs"
    by (auto simp: sort_hotels_def split: sum.splits)
  have "length ks = length hs0" using mapM_err_Inr[OF ks(1)] by (simp add: list_all2_lengthD)
  then show ?thesis using py_sort_length[OF ks(2)] by simp
qed

lemma sort_hotels_typed:
  assumes "sort_hotels hs0 = Inr hs"
    and "\<And>h. h \<in> set hs0 \<Longrightarrow> \<exists>os. h_offers h = PList os \<and> list_all offer_typed os"
  shows "\<exists>ns. map key_num hs0 = map Some ns \<and> hs = map snd (sort_key fst (zip ns hs0))"
proof -
  from assms(1) obtain ks where ks: "mapM_err hotel_key hs0 = Inr ks"
    by (auto simp: sort_hotels_def split: sum.splits)
  have all2: "list_all2 (\<lambda>h k. hotel_key h = Inr k) hs0 ks" using ks by (rule mapM_err_Inr)
  have "\<And>h. h \<in> set hs0 \<Longrightarrow> key_num h \<noteq> None"
  proof -
    fix h assume h: "h \<in> set hs0"
    then obtain i where i: "i < length hs0" "hs0 ! i = h" by (auto simp: in_set_conv_nth)
    with all2 have k: "hotel_key h = Inr (ks ! i)" by (auto simp: list_all2_conv_all_nth)
    from assms(2)[OF h] obtain os where "h_offers h = PList os" "list_all offer_typed os" by blast
    from typed_key[OF this k] show "key_num h \<noteq> None" using k by (simp add: key_num_def)
  qed
  then have eq: "map key_num hs0 = map Some (map (\<lambda>h. the (key_num h)) hs0)" by auto
  from sort_hotels_numeric[OF eq] assms(1)
  have "hs = map snd (sort_key fst (zip (map (\<lambda>h. the (key_num h)) hs0) hs0))" by simp
  with eq show ?thesis by blast
qed

lemma typed_pipeline:
  assumes "db_typed d" "fst (list_hotels d dest mp mr n) = Inr hs"
  shows "\<exists>docs hs0 ns.
           get_documents (ensure_seed_hotels d) (build_filter dest mr) n = Inr docs \<and>
           filter_hotels mp docs = Inr hs0 \<and> (\<forall>dc\<in>set docs. offers_typed dc) \<and>
           map key_num hs0 = map Some ns \<and> hs = map snd (sort_key fst (zip ns hs0))"
proof -
  from list_hotels_Inr[OF assms(2)] obtain docs hs0 where
    p: "get_documents (ensure_seed_hotels d) (build_filter dest mr) n = Inr docs"
       "filter_hotels mp docs = Inr hs0" "sort_hotels hs0 = Inr hs" by blast
  have ty: "\<forall>dc\<in>set docs. offers_typed dc" using fetched_typed[OF assms(1) p(1)] by blast
  have "\<And>h. h \<in> set hs0 \<Longrightarrow> \<exists>os. h_offers h = PList os \<and> list_all offer_typed os"
  proof -
    fix h assume "h \<in> set hs0"
    from filter_hotels_mem[OF p(2) this] obtain dc where
      dc: "dc \<in> set docs" "loop_body mp dc = Inr (Some h)" by blast
    from loop_body_Some(1)[OF dc(2)] offers_typed_dget[of dc] ty dc(1)
    show "\<exists>os. h_offers h = PList os \<and> list_all offer_typed os" by auto
  qed
  from sort_hotels_typed[OF p(3) this] p(1,2) ty show ?thesis by blast
qed


lemma priced_db_typed: "db_typed priced_db"
  by (simp add: priced_db_def db_typed_def offers_typed_def offer_typed_def)

lemma priced_db_run: "fst (list_hotels priced_db None (Some 150) None 20) = Inr priced_out"
  by (simp add: priced_db_def priced_out_def eval_defs)

lemma mapM_err_total:
  "(\<And>x. x \<in> set xs \<Longrightarrow> \<exists>y. f x = Inr y \<and> P y) \<Longrightarrow>
   \<exists>ys. mapM_err f xs = Inr ys \<and> list_all P ys \<and> length ys = length xs"
proof (induction xs)
  case Nil
  then show ?case by simp
next
  case (Cons x xs)
  from Cons.prems[of x] obtain y where y: "f x = Inr y" "P y" by auto
  from Cons.IH Cons.prems obtain ys where "mapM_err f xs = Inr ys" "list_all P ys"
    "length ys = length xs" by auto
  with y show ?case by simp
qed

lemma best_price_typed:
  assumes "list_all offer_typed os"
  shows "\<exists>ps. mapM_err get_price_or_0 os = Inr ps \<and> list_all (\<lambda>p. num_of p \<noteq> None) ps \<and>
           length ps = length os \<and> best_price (PList os) = py_min_default ps PNone"
proof -
  have "\<exists>y. get_price_or_0 x = Inr y \<and> num_of y \<noteq> None" if "x \<in> set os" for x
  proof -
    from that assms have "offer_typed x" by (simp add: list_all_iff)
    then show ?thesis by (rule get_price_or_0_typed)
  qed
  from mapM_err_total[of os get_price_or_0 "\<lambda>y. num_of y \<noteq> None", OF this] obtain ps where
    "mapM_err get_price_or_0 os = Inr ps" "list_all (\<lambda>p. num_of p \<noteq> None) ps"
    "length ps = length os" by blast
  then show ?thesis by (auto simp: best_price_def)
qed












lemma match_here_plain:
  "CHR ''.'' \<notin> set p \<Longrightarrow> match_here p s = prefix_ci p s"
  by (induction p s rule: match_here.induct) auto

lemma regex_search_plain:
  "CHR ''.'' \<notin> set p \<Longrightarrow> regex_search p s = contains_ci p s"
  by (induction s) (auto simp: match_here_plain)

lemma numeric_map: "list_all (\<lambda>p. num_of p \<noteq> None) ps \<Longrightarrow>
    map num_of ps = map Some (map (\<lambda>p. the (num_of p)) ps)"
  by (induction ps) auto

lemma typed_key_cheapest:
  assumes "h_offers h = PList os" "os \<noteq> []" "list_all offer_typed os" "hotel_key h = Inr k"
  shows "\<exists>x. num_of k = Some x \<and> spec_cheapest_price (h_offers h) = Some x"
proof -
  from assms obtain ps where ps: "mapM_err get_price os = Inr ps" "py_min ps = Inr k"
    by (auto simp: hotel_key_def split: sum.splits)
  have "length ps = length os" using mapM_err_Inr[OF ps(1)] by (simp add: list_all2_lengthD)
  with assms(2) have ne: "ps \<noteq> []" by auto
  have num: "list_all (\<lambda>p. num_of p \<noteq> None) ps" by (rule typed_prices[OF assms(3) ps(1)])
  from py_min_num[OF ne num, of PNone] ps(2) obtain a where
    a: "k \<in> set ps" "num_of k = Some a" "\<forall>y\<in>set ps. \<exists>b. num_of y = Some b \<and> a \<le> b"
    by auto
  let ?xs = "map (\<lambda>p. the (num_of p)) ps"
  have "those (map num_of ps) = those (map Some ?xs)"
    using numeric_map[OF num] by (rule arg_cong)
  then have th: "those (map num_of ps) = Some ?xs"
    by (simp only: those_map_Some)
  have "a \<in> set ?xs" using a(1,2) by force
  moreover have "\<forall>y\<in>set ?xs. a \<le> y" using a(3) by force
  ultimately have "Min (set ?xs) = a" by (intro Min_eqI) auto
  then have "spec_cheapest_price (PList os) = Some a"
    using ps(1) th ne by (simp add: spec_cheapest_price_def)
  with a(2) assms(1) show ?thesis by simp
qed

section \<open>The max_price filter\<close>

text \<open>
  Claim C1. For every call of \<^verbatim>\<open>list_hotels\<close> with \<^verbatim>\<open>max_price\<close> supplied, on a store
  whose records have offers as the data model describes them, every hotel of the returned
  list either has an empty offers list or has a cheapest-offer price at most
  \<^verbatim>\<open>max_price\<close>: the minimum that the filter computed is the one that the sort key
  computes, it is the minimum price among the offers, and it does not exceed the bound.
  A fetched record without offers is never dropped by the filter: its projection is in
  the returned list.
\<close>

theorem max_price_filter:
  assumes "db_typed d" "fst (list_hotels d dest (Some mp) mr n) = Inr hs"
  shows "(\<forall>h\<in>set hs. h_offers h = PList [] \<or>
            (\<exists>k x. best_price (h_offers h) = Inr k \<and> hotel_key h = Inr k \<and>
                   num_of k = Some x \<and> spec_cheapest_price (h_offers h) = Some x \<and> x \<le> mp)) \<and>
         (\<forall>docs. get_documents (ensure_seed_hotels d) (build_filter dest mr) n = Inr docs \<longrightarrow>
            (\<forall>dc\<in>set docs. dget dc ''offers'' (PList []) = PList [] \<longrightarrow>
               (\<exists>h\<in>set hs. project dc (PList []) = Inr h)))"
proof -
  from typed_pipeline[OF assms] obtain docs hs0 ns where
    p: "get_documents (ensure_seed_hotels d) (build_filter dest mr) n = Inr docs"
       "filter_hotels (Some mp) docs = Inr hs0" "\<forall>dc\<in>set docs. offers_typed dc"
       "map key_num hs0 = map Some ns" "hs = map snd (sort_key fst (zip ns hs0))" by blast
  have "mset hs = mset hs0" using sorted_result(3)[OF p(4)] p(5) by simp
  then have sets: "set hs = set hs0" by (rule mset_eq_setD)
  have part1: "h_offers h = PList [] \<or>
            (\<exists>k x. best_price (h_offers h) = Inr k \<and> hotel_key h = Inr k \<and>
                   num_of k = Some x \<and> spec_cheapest_price (h_offers h) = Some x \<and> x \<le> mp)"
    if "h \<in> set hs" for h
  proof -
    from that sets have h0: "h \<in> set hs0" by simp
    from filter_hotels_mem[OF p(2) h0] obtain dc where
      dc: "dc \<in> set docs" "loop_body (Some mp) dc = Inr (Some h)" by blast
    from loop_body_Some(1)[OF dc(2)] offers_typed_dget[of dc] p(3) dc(1)
    obtain os where os: "h_offers h = PList os" "list_all offer_typed os" by auto
    from h0 obtain i where "i < length hs0" "hs0 ! i = h" by (auto simp: in_set_conv_nth)
    then have "key_num h = map key_num hs0 ! i" by simp
    also have "\<dots> = Some (ns ! i)" using p(4) \<open>i < length hs0\<close>
      by (metis length_map nth_map)
    finally obtain k where k: "hotel_key h = Inr k"
      by (auto simp: key_num_def split: sum.splits)
    show ?thesis
    proof (cases "os = []")
      case True
      then show ?thesis using os by simp
    next
      case False
      from typed_key_cheapest[OF os(1) False os(2) k] obtain x where
        x: "num_of k = Some x" "spec_cheapest_price (h_offers h) = Some x" by auto
      from False have "py_truthy (h_offers h)" using os by simp
      from hotel_key_best_price[OF this k] have bp: "best_price (h_offers h) = Inr k" .
      from loop_body_Some(2)[OF dc(2)] bp have "excluded (Some mp) k = Inr False" by auto
      moreover have "k \<noteq> PNone" using x(1) by auto
      ultimately have "\<not> mp < x" using x(1) by (simp add: excluded_def py_gt_def py_lt_def)
      then show ?thesis using bp k x by auto
    qed
  qed
  have part2: "\<exists>h\<in>set hs. project dc (PList []) = Inr h"
    if a: "get_documents (ensure_seed_hotels d) (build_filter dest mr) n = Inr docs'"
       "dc \<in> set docs'" "dget dc ''offers'' (PList []) = PList []" for docs' dc
  proof -
    from a(1) p(1) have "docs' = docs" by simp
    with a(2) have dc: "dc \<in> set docs" by simp
    from filter_hotels_total[OF p(2) dc] obtain r where r: "loop_body (Some mp) dc = Inr r" by blast
    then obtain h where h: "r = Some h" "project dc (PList []) = Inr h"
      using a(3)
      by (auto simp: loop_body_def best_price_def py_min_default_def excluded_def
          split: sum.splits)
    from filter_hotels_kept[OF p(2) dc] r h(1) have "h \<in> set hs0" by simp
    then show ?thesis using h(2) sets by auto
  qed
  from part1 part2 show ?thesis by blast
qed

theorem max_price_filter_witness:
  "db_typed priced_db \<and> fst (list_hotels priced_db None (Some 150) None 20) = Inr priced_out \<and>
   list_all (\<lambda>h. h_offers h = PList [] \<or>
      (\<exists>k x. best_price (h_offers h) = Inr k \<and> hotel_key h = Inr k \<and>
             num_of k = Some x \<and> spec_cheapest_price (h_offers h) = Some x \<and> x \<le> 150)) priced_out"
proof -
  have a: "db_typed priced_db" by (rule priced_db_typed)
  have b: "fst (list_hotels priced_db None (Some 150) None 20) = Inr priced_out"
    by (rule priced_db_run)
  from max_price_filter[OF a b] have "\<forall>h\<in>set priced_out. h_offers h = PList [] \<or>
      (\<exists>k x. best_price (h_offers h) = Inr k \<and> hotel_key h = Inr k \<and>
             num_of k = Some x \<and> spec_cheapest_price (h_offers h) = Some x \<and> x \<le> 150)" by blast
  then show ?thesis using a b by (simp add: list_all_iff)
qed

section \<open>The order of the result\<close>

text \<open>
  Claim C2, as amended. For every call of \<^verbatim>\<open>list_hotels\<close> on a store whose records
  have offers as the data model describes them, the returned list is ascending in the
  sort key, which is the cheapest offer price of a hotel with offers and the sentinel
  \<open>1e9\<close> of a hotel without; so a hotel with an empty offers list comes after every
  hotel that has offers and a cheapest price below the sentinel.
\<close>

theorem sorted_by_price_key:
  assumes "db_typed d" "fst (list_hotels d dest mp mr n) = Inr hs"
  shows "(\<exists>xs. map key_num hs = map Some xs \<and> sorted xs) \<and>
         (\<forall>h\<in>set hs. key_num h =
            (if h_offers h = PList [] then Some sentinel else spec_cheapest_price (h_offers h))) \<and>
         (\<forall>i j x. i < length hs \<and> j < length hs \<and> h_offers (hs ! i) = PList [] \<and>
             h_offers (hs ! j) \<noteq> PList [] \<and> key_num (hs ! j) = Some x \<and> x < sentinel
             \<longrightarrow> j < i)"
proof -
  from typed_pipeline[OF assms] obtain docs hs0 ns where
    p: "filter_hotels mp docs = Inr hs0" "\<forall>dc\<in>set docs. offers_typed dc"
       "map key_num hs0 = map Some ns" "hs = map snd (sort_key fst (zip ns hs0))" by blast
  define xs where "xs = map fst (sort_key fst (zip ns hs0))"
  have keys: "map key_num hs = map Some xs" and srt: "sorted xs"
    using sorted_result(1,2)[OF p(3)] p(4) by (simp_all add: xs_def)
  have len: "length xs = length hs" using keys by (metis length_map)
  have "mset hs = mset hs0" using sorted_result(3)[OF p(3)] p(4) by simp
  then have sets: "set hs = set hs0" by (rule mset_eq_setD)
  have cheapest: "key_num h =
      (if h_offers h = PList [] then Some sentinel else spec_cheapest_price (h_offers h))"
    if "h \<in> set hs" for h
  proof -
    from that sets have h0: "h \<in> set hs0" by simp
    from filter_hotels_mem[OF p(1) h0] obtain dc where
      dc: "dc \<in> set docs" "loop_body mp dc = Inr (Some h)" by blast
    from loop_body_Some(1)[OF dc(2)] offers_typed_dget[of dc] p(2) dc(1)
    obtain os where os: "h_offers h = PList os" "list_all offer_typed os" by auto
    from that obtain i where i: "i < length hs" "hs ! i = h" by (auto simp: in_set_conv_nth)
    then have "key_num h = map key_num hs ! i" by simp
    also have "\<dots> = Some (xs ! i)" using keys i(1) len by simp
    finally obtain k where k: "hotel_key h = Inr k"
      by (auto simp: key_num_def split: sum.splits)
    show ?thesis
    proof (cases "os = []")
      case True
      then show ?thesis using os by (simp add: key_num_def hotel_key_def)
    next
      case False
      from typed_key_cheapest[OF os(1) False os(2) k] k False os(1)
      show ?thesis by (auto simp: key_num_def)
    qed
  qed
  have "j < i" if a: "i < length hs" "j < length hs" "h_offers (hs ! i) = PList []"
      "key_num (hs ! j) = Some x" "x < sentinel" for i j x
  proof (rule ccontr)
    assume "\<not> j < i"
    then have ij: "i \<le> j" by simp
    have "key_num (hs ! i) = Some sentinel" using a(3) by (simp add: key_num_def hotel_key_def)
    moreover have "key_num (hs ! i) = Some (xs ! i)"
      using keys a(1) len by (metis nth_map)
    ultimately have xi: "xs ! i = sentinel" by simp
    have "key_num (hs ! j) = Some (xs ! j)"
      using keys a(2) len by (metis nth_map)
    with a(4) have xj: "xs ! j = x" by simp
    have "xs ! i \<le> xs ! j" using srt ij a(2) len by (simp add: sorted_nth_mono)
    with xi xj a(5) show False by simp
  qed
  with keys srt cheapest show ?thesis by blast
qed

theorem sorted_by_price_key_witness:
  "db_typed priced_db \<and> fst (list_hotels priced_db None (Some 150) None 20) = Inr priced_out \<and>
   map key_num priced_out = [Some 100, Some sentinel] \<and> sorted [100, sentinel]"
proof -
  have a: "db_typed priced_db" by (rule priced_db_typed)
  have b: "fst (list_hotels priced_db None (Some 150) None 20) = Inr priced_out"
    by (rule priced_db_run)
  from sorted_by_price_key[OF a b] obtain xs where
    xs: "map key_num priced_out = map Some xs" "sorted xs" by blast
  have k: "map key_num priced_out = [Some 100, Some sentinel]"
    by (simp add: priced_out_def key_num_def hotel_key_def py_min_def)
  with xs(1) have "xs = [100, sentinel]" by (auto simp: map_eq_Cons_conv)
  with xs(2) a b k show ?thesis by simp
qed

text \<open>
  Claim C2 as stated fails: a hotel without offers is returned before a hotel whose only
  offer costs \<open>2000000000\<close>, which is more than the sentinel.
\<close>

theorem no_offers_first_counterexample:
  "map_sum id (map h_name) (fst (list_hotels dear_db None None None 20)) =
     Inr [PStr ''No Offers Lodge'', PStr ''Grand Palace''] \<and>
   map_sum id (map h_offers) (fst (list_hotels dear_db None None None 20)) =
     Inr [PList [], PList [PDict [(''name'', PStr ''Expedia''), (''price'', PInt 2000000000)]]]"
  by (simp add: dear_db_def eval_defs)

section \<open>Seeding an empty collection\<close>

text \<open>
  Claim C3. A call of \<^verbatim>\<open>list_hotels\<close> without filters and with limit 20 on an empty
  collection of a reachable store leaves exactly the four sample hotels in the
  collection, each with a fresh identifier in front, and returns all four in the order
  City Center Boutique Hotel (119), Seaside Vista Resort (176), Alpine Lodge & Spa (239),
  Lagoon Overwater Villas (598).
\<close>

theorem seed_scenario:
  "map_sum id (map h_name) (fst (list_hotels (Some \<lparr>hotel = [], next_oid = k\<rparr>) None None None 20)) =
     Inr [PStr ''City Center Boutique Hotel'', PStr ''Seaside Vista Resort'',
          PStr ''Alpine Lodge & Spa'', PStr ''Lagoon Overwater Villas''] \<and>
   map_sum id (map hotel_key) (fst (list_hotels (Some \<lparr>hotel = [], next_oid = k\<rparr>) None None None 20)) =
     Inr [Inr (PInt 119), Inr (PInt 176), Inr (PInt 239), Inr (PInt 598)] \<and>
   map_option (map tl) (map_option hotel (snd (list_hotels (Some \<lparr>hotel = [], next_oid = k\<rparr>) None None None 20))) =
     Some sample_hotels"
  by (simp add: eval_defs)

text \<open>
  Claim C5. The seed step inserts nothing into a collection that has a record, and
  running it a second time changes nothing, whatever the first run did.
\<close>

theorem seed_idempotent:
  "(hotel s \<noteq> [] \<longrightarrow> ensure_seed_hotels (Some s) = Some s) \<and>
   ensure_seed_hotels (ensure_seed_hotels d) = ensure_seed_hotels d"
  by (auto simp: ensure_seed_hotels_def count_documents_def create_document_def
      sample_hotels_def split: option.splits)

theorem seed_idempotent_witness:
  "ensure_seed_hotels priced_db = priced_db \<and>
   ensure_seed_hotels (ensure_seed_hotels priced_db) = ensure_seed_hotels priced_db"
  using seed_idempotent[of "\<lparr>hotel =
     [[(''_id'', PObjectId 7), (''name'', PStr ''Harbour Inn''),
       (''offers'', PList [PDict [(''name'', PStr ''Expedia''), (''price'', PInt 100)]])],
      [(''_id'', PObjectId 8), (''name'', PStr ''Empty House'')]], next_oid = 9\<rparr>" priced_db]
  by (simp add: priced_db_def)

section \<open>An offer without a price\<close>

text \<open>
  Claim C9. The sort key reads \<^verbatim>\<open>o["price"]\<close> without a default: on a store whose one
  hotel has one offer without the key \<^verbatim>\<open>price\<close>, the filter loop succeeds and the sort
  raises KeyError, so the call fails instead of returning a list.
\<close>

theorem sort_key_raises:
  "filter_hotels None (hotel (the priceless_db)) =
     Inr [\<lparr>h_id = Text (hex24 0), h_name = PStr ''No Price Inn'', h_location = PNone,
           h_rating = PFloat 0, h_reviews = PInt 0, h_image = PNone,
           h_offers = PList [PDict [(''name'', PStr ''Expedia'')]]\<rparr>] \<and>
   fst (list_hotels priceless_db None None None 20) = Inl KeyError"
  by (simp add: priceless_db_def eval_defs)

section \<open>The empty destination\<close>

text \<open>
  Claim C10. A call with the empty string as destination is the call with no
  destination: the empty string adds no predicate on the location.
\<close>

theorem empty_destination:
  "list_hotels d (Some []) max_price min_rating n = list_hotels d None max_price min_rating n"
  by (simp add: list_hotels_def build_filter_def)

section \<open>The limit\<close>

text \<open>
  Claim C4. The limit caps the fetch, before the max_price filter, and the result is not
  limited again: the returned list has at most \<^verbatim>\<open>limit\<close> hotels, and it can have fewer
  although more stored records pass every filter. With limit 2 and max_price 150 the two
  records fetched are both dropped and the result is empty, while the third stored
  record passes the filter, as the call with limit 3 shows.
\<close>

theorem limit_before_price_filter:
  "(fst (list_hotels d dest mp mr n) = Inr hs \<longrightarrow> length hs \<le> n) \<and>
   fst (list_hotels queue_db None (Some 150) None 2) = Inr [] \<and>
   map_sum id (map h_name) (fst (list_hotels queue_db None (Some 150) None 3)) =
     Inr [PStr ''Budget Inn'']"
proof -
  have "length hs \<le> n" if a: "fst (list_hotels d dest mp mr n) = Inr hs"
  proof -
    from list_hotels_Inr[OF a] obtain docs hs0 where
      p: "get_documents (ensure_seed_hotels d) (build_filter dest mr) n = Inr docs"
         "filter_hotels mp docs = Inr hs0" "sort_hotels hs0 = Inr hs" by blast
    from get_documents_subset[OF p(1)] have "length docs \<le> n" by blast
    with filter_hotels_length[OF p(2)] sort_hotels_length[OF p(3)] show ?thesis by simp
  qed
  then have a: "fst (list_hotels d dest mp mr n) = Inr hs \<longrightarrow> length hs \<le> n" by simp
  have b: "fst (list_hotels queue_db None (Some 150) None 2) = Inr []"
    by (simp add: queue_db_def eval_defs)
  have c: "map_sum id (map h_name) (fst (list_hotels queue_db None (Some 150) None 3)) =
     Inr [PStr ''Budget Inn'']"
    by (simp add: queue_db_def eval_defs)
  show ?thesis by (intro conjI a b c)
qed

theorem limit_before_price_filter_witness:
  "fst (list_hotels queue_db None (Some 150) None 2) = Inr [] \<and> length ([] :: hotel_out list) \<le> 2"
  using limit_before_price_filter[of queue_db None "Some 150" None 2 "[]"] by simp

section \<open>The destination filter\<close>

text \<open>
  Claim C6 on the code. With the destination \<^verbatim>\<open>.\<close> on the seeded store the call
  returns all four hotels, and the location of none of them contains a dot: the
  destination is passed to the store as a regular expression, not as a substring.
\<close>

theorem destination_is_regex:
  "map_sum id (map h_location)
     (fst (list_hotels (Some \<lparr>hotel = [], next_oid = 0\<rparr>) (Some ''.'') None None 20)) =
     Inr [PStr ''Tokyo, Japan'', PStr ''Miami Beach, USA'', PStr ''Zermatt, Switzerland'',
          PStr (''Mal'' @ [CHR 0xE9] @ '', Maldives'')] \<and>
   \<not> contains_ci ''.'' ''Tokyo, Japan'' \<and> \<not> contains_ci ''.'' ''Miami Beach, USA'' \<and>
   \<not> contains_ci ''.'' ''Zermatt, Switzerland'' \<and>
   \<not> contains_ci ''.'' (''Mal'' @ [CHR 0xE9] @ '', Maldives'')"
  by (simp add: eval_defs)

section \<open>Records with missing or ill-typed fields\<close>




section \<open>An offer without a price in the filter\<close>

text \<open>
  Claim C8. In the max_price filter an offer without the key \<^verbatim>\<open>price\<close> counts with the
  price 0. So for a hotel whose offers are typed as the data model says and one of which
  has no price, the best price is a number that is at most 0, and it is 0 when no price
  is negative; for every \<^verbatim>\<open>max_price\<close> that is not negative the hotel is not excluded
  and the loop body does not skip its record.
\<close>

theorem priceless_offer_counts_as_zero:
  assumes "list_all offer_typed os" "PDict kvs \<in> set os" "map_of kvs ''price'' = None"
  shows "get_price_or_0 (PDict kvs) = Inr (PInt 0) \<and>
         (\<exists>k x. best_price (PList os) = Inr k \<and> num_of k = Some x \<and> x \<le> 0 \<and>
            (list_all price_nonneg os \<longrightarrow> x = 0) \<and>
            (0 \<le> mp \<longrightarrow> excluded (Some mp) k = Inr False \<and>
               (map_of dc ''offers'' = Some (PList os) \<longrightarrow> loop_body (Some mp) dc \<noteq> Inr None)))"
proof -
  have zero: "get_price_or_0 (PDict kvs) = Inr (PInt 0)"
    using assms(3) by (simp add: dget_def)
  from best_price_typed[OF assms(1)] obtain ps where
    ps: "mapM_err get_price_or_0 os = Inr ps" "list_all (\<lambda>p. num_of p \<noteq> None) ps"
        "length ps = length os" "best_price (PList os) = py_min_default ps PNone" by auto
  have all2: "list_all2 (\<lambda>x y. get_price_or_0 x = Inr y) os ps" using ps(1) by (rule mapM_err_Inr)
  from assms(2) obtain i where i: "i < length os" "os ! i = PDict kvs"
    by (auto simp: in_set_conv_nth)
  with all2 zero have "ps ! i = PInt 0" by (auto simp: list_all2_conv_all_nth)
  with i(1) ps(3) have mem: "PInt 0 \<in> set ps" by (metis nth_mem)
  then have ne: "ps \<noteq> []" by auto
  from py_min_num[OF ne ps(2), of PNone] obtain k a where
    k: "py_min_default ps PNone = Inr k" "k \<in> set ps" "num_of k = Some a"
       "\<forall>y\<in>set ps. \<exists>b. num_of y = Some b \<and> a \<le> b" by auto
  from k(4) mem have le: "a \<le> 0" by fastforce
  have bp: "best_price (PList os) = Inr k" using ps(4) k(1) by simp
  have nonneg: "a = 0" if nn: "list_all price_nonneg os"
  proof -
    from k(2) obtain j where j: "j < length ps" "ps ! j = k" by (auto simp: in_set_conv_nth)
    with all2 have g: "get_price_or_0 (os ! j) = Inr k" by (auto simp: list_all2_conv_all_nth)
    from j(1) ps(3) nn have "price_nonneg (os ! j)" by (simp add: list_all_length)
    with g k(3) have "0 \<le> a" by (simp add: price_nonneg_def)
    with le show ?thesis by simp
  qed
  have kn: "k \<noteq> PNone" using k(3) by auto
  have ex: "excluded (Some mp) k = Inr False" if "0 \<le> mp"
    using that le kn k(3) by (simp add: excluded_def py_gt_def py_lt_def)
  have lb: "loop_body (Some mp) dc \<noteq> Inr None"
    if "0 \<le> mp" "map_of dc ''offers'' = Some (PList os)"
  proof -
    from that(2) have "dget dc ''offers'' (PList []) = PList os" by (simp add: dget_def)
    then show ?thesis using bp ex[OF that(1)]
      by (simp add: loop_body_def split: sum.splits)
  qed
  show ?thesis
  proof (intro conjI exI)
    show "get_price_or_0 (PDict kvs) = Inr (PInt 0)" by (rule zero)
    show "best_price (PList os) = Inr k" by (rule bp)
    show "num_of k = Some a" by (rule k(3))
    show "a \<le> 0" by (rule le)
    show "list_all price_nonneg os \<longrightarrow> a = 0" using nonneg by simp
    show "0 \<le> mp \<longrightarrow> excluded (Some mp) k = Inr False \<and>
               (map_of dc ''offers'' = Some (PList os) \<longrightarrow> loop_body (Some mp) dc \<noteq> Inr None)"
      using ex lb by simp
  qed
qed

theorem priceless_offer_counts_as_zero_witness:
  "list_all offer_typed [PDict [(''name'', PStr ''Expedia'')], PDict [(''name'', PStr ''Agoda''), (''price'', PInt 80)]] \<and>
   best_price (PList [PDict [(''name'', PStr ''Expedia'')], PDict [(''name'', PStr ''Agoda''), (''price'', PInt 80)]]) = Inr (PInt 0) \<and>
   excluded (Some 0) (PInt 0) = Inr False"
proof -
  let ?os = "[PDict [(''name'', PStr ''Expedia'')], PDict [(''name'', PStr ''Agoda''), (''price'', PInt 80)]]"
  have a: "list_all offer_typed ?os" by (simp add: offer_typed_def)
  have b: "PDict [(''name'', PStr ''Expedia'')] \<in> set ?os" by simp
  have c: "map_of [(''name'', PStr ''Expedia'')] ''price'' = None" by simp
  have nn: "list_all price_nonneg ?os" by (simp add: price_nonneg_def dget_def)
  from priceless_offer_counts_as_zero[OF a b c, of 0 "[]"] nn obtain k where
    "best_price (PList ?os) = Inr k" "num_of k = Some 0" "excluded (Some 0) k = Inr False"
    by auto
  moreover have "best_price (PList ?os) = Inr (PInt 0)"
    by (simp add: best_price_def dget_def py_min_default_def py_lt_def)
  ultimately show ?thesis using a by simp
qed

end
